theory Spec2Isabelle
  imports Complex_Main
begin

section \<open>Constants and types of src/main.ts\<close>

text \<open>
  JavaScript numbers are modelled as \<open>int\<close> wherever the program only ever holds
  integers there (coordinates, cells, score, level, counters), and as \<open>rat\<close> where it
  divides or scales (the block centre, the tick rate). All these values are small
  multiples of 1/4 or products such as 200 * 0.1, which IEEE doubles compute exactly.
\<close>

definition TICK_RATE_MS :: rat where
  "TICK_RATE_MS = 200"

definition GRID_WIDTH :: int where
  "GRID_WIDTH = 10"

definition GRID_HEIGHT :: int where
  "GRID_HEIGHT = 20"

record Point =
  x :: int
  y :: int

type_synonym Block = "Point list"

datatype Cell = EMPTY | FILLED

type_synonym GameState = "Cell list list"

datatype Direction = LEFT | RIGHT | DOWN | NONE

text \<open>The keys of the object TETROMINOS, in the order Object.keys lists them.\<close>

datatype TetrominoKey = Key_I | Key_O | Key_T | Key_S | Key_Z | Key_J | Key_L

record State =
  gameEnd :: bool
  block :: Block
  direction :: Direction
  grid :: "int list list"
  blockSettled :: bool
  gameGrid :: GameState
  score :: int
  highscore :: int
  nextBlock :: Block
  clearedRows :: int
  currentLevel :: int
  currentBlockType :: string
  gamePaused :: bool

definition STARTING_POSITION :: Point where
  "STARTING_POSITION = \<lparr>x = GRID_WIDTH div 2 - 1, y = 0\<rparr>"

section \<open>Tetromino operations\<close>

definition createSquareBlock :: "int \<Rightarrow> int \<Rightarrow> Block" where
  "createSquareBlock px py =
     [\<lparr>x = px, y = py\<rparr>,
      \<lparr>x = px + 1, y = py\<rparr>,
      \<lparr>x = px, y = py + 1\<rparr>,
      \<lparr>x = px + 1, y = py + 1\<rparr>]"

fun TETROMINOS :: "TetrominoKey \<Rightarrow> Block" where
  "TETROMINOS Key_I = [\<lparr>x = 4, y = 0\<rparr>, \<lparr>x = 4, y = 1\<rparr>, \<lparr>x = 4, y = 2\<rparr>, \<lparr>x = 4, y = 3\<rparr>]"
| "TETROMINOS Key_O = [\<lparr>x = 4, y = 0\<rparr>, \<lparr>x = 5, y = 0\<rparr>, \<lparr>x = 4, y = 1\<rparr>, \<lparr>x = 5, y = 1\<rparr>]"
| "TETROMINOS Key_T = [\<lparr>x = 4, y = 0\<rparr>, \<lparr>x = 3, y = 1\<rparr>, \<lparr>x = 4, y = 1\<rparr>, \<lparr>x = 5, y = 1\<rparr>]"
| "TETROMINOS Key_S = [\<lparr>x = 4, y = 0\<rparr>, \<lparr>x = 5, y = 0\<rparr>, \<lparr>x = 3, y = 1\<rparr>, \<lparr>x = 4, y = 1\<rparr>]"
| "TETROMINOS Key_Z = [\<lparr>x = 3, y = 0\<rparr>, \<lparr>x = 4, y = 0\<rparr>, \<lparr>x = 4, y = 1\<rparr>, \<lparr>x = 5, y = 1\<rparr>]"
| "TETROMINOS Key_J = [\<lparr>x = 3, y = 0\<rparr>, \<lparr>x = 3, y = 1\<rparr>, \<lparr>x = 4, y = 1\<rparr>, \<lparr>x = 5, y = 1\<rparr>]"
| "TETROMINOS Key_L = [\<lparr>x = 5, y = 0\<rparr>, \<lparr>x = 3, y = 1\<rparr>, \<lparr>x = 4, y = 1\<rparr>, \<lparr>x = 5, y = 1\<rparr>]"

text \<open>
  \<open>newBlock\<close> draws a key with Math.random and copies that tetromino point by point.
  The drawn key is the argument here: the random source is outside the model.
\<close>

definition newBlock :: "TetrominoKey \<Rightarrow> Block" where
  "newBlock randomKey = map (\<lambda>point. \<lparr>x = x point, y = y point\<rparr>) (TETROMINOS randomKey)"

section \<open>Game initialisation\<close>

definition emptyGameGrid :: GameState where
  "emptyGameGrid = replicate (nat GRID_HEIGHT) (replicate (nat GRID_WIDTH) EMPTY)"

text \<open>
  \<open>initialState\<close> is evaluated once when the module loads; its \<open>nextBlock\<close> is the one
  call of \<open>newBlock\<close> made then, whose key is the argument.
\<close>

definition initialState :: "TetrominoKey \<Rightarrow> State" where
  "initialState k0 =
     \<lparr>gameEnd = False,
      block = createSquareBlock (x STARTING_POSITION) (y STARTING_POSITION),
      direction = NONE,
      grid = map (\<lambda>_. replicate (nat GRID_WIDTH) 0) (replicate (nat GRID_HEIGHT) ()),
      blockSettled = False,
      gameGrid = emptyGameGrid,
      score = 0,
      highscore = 0,
      nextBlock = newBlock k0,
      clearedRows = 0,
      currentLevel = 1,
      currentBlockType = ''I'',
      gamePaused = False\<rparr>"

section \<open>Game mechanics\<close>

definition getTickRate :: "int \<Rightarrow> rat" where
  "getTickRate cleared =
     (if cleared < 1 then TICK_RATE_MS * 1
      else if cleared \<ge> 1 then TICK_RATE_MS * (1 / 10)
      else TICK_RATE_MS * (1 / 10))"

text \<open>
  Reading a JavaScript array at an integer index: the element, or \<open>undefined\<close>
  (\<open>None\<close>) outside \<open>0 .. length - 1\<close>.
\<close>

definition js_at :: "'a list \<Rightarrow> int \<Rightarrow> 'a option" where
  "js_at xs i = (if 0 \<le> i \<and> i < int (length xs) then Some (xs ! nat i) else None)"

text \<open>
  \<open>grid[point.y] && grid[point.y][point.x] === 1\<close>: a missing row is falsy, an
  existing row (even an empty one) is truthy, and a missing cell is not \<open>1\<close>.
\<close>

definition willCollide :: "Block \<Rightarrow> int list list \<Rightarrow> bool" where
  "willCollide blk g =
     list_ex (\<lambda>point.
        let collidesWithBottom = (y point \<ge> GRID_HEIGHT);
            collidesWithBlock =
              (case js_at g (y point) of
                 None \<Rightarrow> False
               | Some row \<Rightarrow> js_at row (x point) = Some 1)
        in collidesWithBottom \<or> collidesWithBlock) blk"

definition isOutOfBound :: "Block \<Rightarrow> bool" where
  "isOutOfBound blk = list_ex (\<lambda>point. x point < 0 \<or> x point \<ge> GRID_WIDTH) blk"

text \<open>
  What a call can end in besides a state. \<open>TypeError\<close> is the exception JavaScript
  throws on reading or writing a property of \<open>undefined\<close>. \<open>SparseWrite\<close> marks the
  border of this embedding: an assignment \<open>row[i] = v\<close> with \<open>i\<close> outside
  \<open>0 .. length - 1\<close> does not throw in JavaScript but leaves an array that is no longer
  a plain list (a property named by a negative index, or a row grown with holes),
  which the list type of \<open>grid\<close> cannot hold. No run of the game from its initial state
  comes to such a write (lemma \<open>game_never_sparse\<close> below).
\<close>

datatype failure = TypeError | SparseWrite

text \<open>
  \<open>grid[0].length\<close> and \<open>gameGrid[0].length\<close> are only evaluated inside the callback
  of Array.from, so only when at least one row was cleared.
\<close>

definition clearFullRows ::
  "int list list \<Rightarrow> Cell list list \<Rightarrow> failure + (int list list \<times> Cell list list \<times> int)" where
  "clearFullRows g gg =
     (let newGrid = filter (\<lambda>row. list_ex (\<lambda>cell. cell = 0) row) g;
          newGameGrid = filter (\<lambda>row. list_ex (\<lambda>cell. cell \<noteq> FILLED) row) gg;
          cleared = int (length g) - int (length newGrid)
      in if cleared \<le> 0 then Inr (newGrid, newGameGrid, cleared)
         else
           (case (js_at g 0, js_at gg 0) of
              (Some row0, Some grow0) \<Rightarrow>
                (let emptyRows = replicate (nat cleared) (replicate (length row0) 0);
                     emptyGameRows = replicate (nat cleared) (replicate (length grow0) EMPTY)
                 in Inr (emptyRows @ newGrid, emptyGameRows @ newGameGrid, cleared))
            | _ \<Rightarrow> Inl TypeError))"

section \<open>State management\<close>

text \<open>
  The loop \<open>s.block.forEach\<close> of \<open>tick\<close>, on the two copied grids. A point whose row
  does not exist throws. A point whose column lies outside its row makes the result a
  \<open>SparseWrite\<close>, unless a later point throws: the loop goes on, and the number of rows
  never changes.
\<close>

fun stampBlock ::
  "Block \<Rightarrow> int list list \<Rightarrow> Cell list list \<Rightarrow> failure + (int list list \<times> Cell list list)" where
  "stampBlock [] updatedGrid updatedGameGrid = Inr (updatedGrid, updatedGameGrid)"
| "stampBlock (point # points) updatedGrid updatedGameGrid =
     (case (js_at updatedGrid (y point), js_at updatedGameGrid (y point)) of
        (Some row, Some grow) \<Rightarrow>
          if 0 \<le> x point \<and> x point < int (length row) \<and> x point < int (length grow)
          then stampBlock points
                 (updatedGrid[nat (y point) := row[nat (x point) := 1]])
                 (updatedGameGrid[nat (y point) := grow[nat (x point) := FILLED]])
          else (case stampBlock points updatedGrid updatedGameGrid of
                  Inl TypeError \<Rightarrow> Inl TypeError
                | _ \<Rightarrow> Inl SparseWrite)
      | _ \<Rightarrow> Inl TypeError)"

text \<open>
  \<open>tick s k1 k2\<close>: \<open>k1\<close> is the key drawn for \<open>newGeneratedBlock\<close>, \<open>k2\<close> the key drawn
  for the new \<open>nextBlock\<close>. The record update \<open>s\<lparr>...\<rparr>\<close> is the spread \<open>{ ...s, ... }\<close>.
  The source's local array \<open>nextBlock\<close> of the airborne branch is \<open>shifted\<close> as it is
  built and \<open>candidate\<close> after the loop that takes the shift back.
\<close>

definition tick :: "State \<Rightarrow> TetrominoKey \<Rightarrow> TetrominoKey \<Rightarrow> failure + State" where
  "tick s k1 k2 =
     (if gameEnd s \<or> gamePaused s then Inr s
      else if blockSettled s then
        (case stampBlock (block s) (grid s) (gameGrid s) of
           Inl e \<Rightarrow> Inl e
         | Inr (updatedGrid, updatedGameGrid) \<Rightarrow>
             (let newGeneratedBlock = newBlock k1
              in if willCollide newGeneratedBlock updatedGrid then Inr (s\<lparr>gameEnd := True\<rparr>)
                 else
                   (case js_at updatedGrid 0 of
                      None \<Rightarrow> Inl TypeError
                    | Some top_row \<Rightarrow>
                        if list_ex (\<lambda>cell. cell = 1) top_row then Inr (s\<lparr>gameEnd := True\<rparr>)
                        else
                          (case clearFullRows updatedGrid updatedGameGrid of
                             Inl e \<Rightarrow> Inl e
                           | Inr (newGrid, newGameGrid, cleared) \<Rightarrow>
                               (let newScore = score s + 10 * cleared;
                                    newLevel = (if cleared > 0 then currentLevel s + 1
                                                else currentLevel s)
                                in Inr (s\<lparr>block := nextBlock s,
                                          nextBlock := newBlock k2,
                                          blockSettled := False,
                                          direction := NONE,
                                          grid := newGrid,
                                          gameGrid := newGameGrid,
                                          score := newScore,
                                          currentLevel := newLevel\<rparr>))))))
      else
        (let xShift = (if direction s = LEFT then - 1 else if direction s = RIGHT then 1 else 0);
             shifted = map (\<lambda>p. \<lparr>x = x p + xShift, y = y p + 1\<rparr>) (block s);
             candidate = (if isOutOfBound shifted
                          then map (\<lambda>p. p\<lparr>x := x p - xShift\<rparr>) shifted
                          else shifted)
         in if willCollide candidate (grid s) then Inr (s\<lparr>blockSettled := True\<rparr>)
            else Inr (s\<lparr>block := candidate, direction := NONE\<rparr>)))"

section \<open>Block manipulations\<close>

definition getBlockCenter :: "Block \<Rightarrow> rat \<times> rat" where
  "getBlockCenter blk =
     (let total = foldl (\<lambda>acc p. (fst acc + x p, snd acc + y p)) (0, 0) blk;
          len = int (length blk)
      in (of_int (fst total) / of_int len, of_int (snd total) / of_int len))"

text \<open>Math.round: the nearest integer, a half going up.\<close>

definition js_round :: "rat \<Rightarrow> int" where
  "js_round q = \<lfloor>q + 1 / 2\<rfloor>"

definition rotatePoint :: "Point \<Rightarrow> rat \<times> rat \<Rightarrow> Point" where
  "rotatePoint point origin =
     \<lparr>x = js_round (fst origin + of_int (y point) - snd origin),
      y = js_round (snd origin - of_int (x point) + fst origin)\<rparr>"

text \<open>
  Of an empty block the centre is NaN in JavaScript and 0 here; no point is rotated
  about it, and the result is the empty block in both.
\<close>

definition rotateBlock :: "Block \<Rightarrow> string \<Rightarrow> Block" where
  "rotateBlock blk type =
     (if type = ''O'' then blk
      else (let origin = getBlockCenter blk in map (\<lambda>p. rotatePoint p origin) blk))"

section \<open>The reducer of the stream game$\<close>

text \<open>
  The events merged into \<open>game$\<close>. \<open>TICK k1 k2\<close> is the timer's \<open>'TICK'\<close> with the two
  keys that the calls of \<open>newBlock\<close> inside \<open>tick\<close> would draw. \<open>DIRECTION d\<close> is one of
  the strings \<open>'LEFT'\<close>, \<open>'RIGHT'\<close>, \<open>'DOWN'\<close> of \<open>direction$\<close>, or the \<open>'NONE'\<close> it starts
  with, which no \<open>case\<close> of the switch names.
\<close>

datatype Event = TICK TetrominoKey TetrominoKey | DIRECTION Direction | RESTART | ROTATE | PAUSE

text \<open>
  One call of the function given to \<open>scan\<close>. The accumulator is the state; the second
  component is the value held by the subject \<open>tickRate$\<close>, which the function reads and
  sets. In \<open>case 'ROTATE'\<close> a rejected rotation leaves the \<open>if\<close> without returning, and
  control falls into \<open>case 'PAUSE'\<close>.
\<close>

definition game_reduce :: "TetrominoKey \<Rightarrow> State \<times> rat \<Rightarrow> Event \<Rightarrow> failure + (State \<times> rat)" where
  "game_reduce k0 acc event =
     (let state = fst acc; tickRate = snd acc in
      case event of
        TICK k1 k2 \<Rightarrow>
          (case tick state k1 k2 of
             Inl e \<Rightarrow> Inl e
           | Inr newState \<Rightarrow>
               (let newRate = getTickRate (clearedRows newState)
                in Inr (newState, if newRate \<noteq> tickRate then newRate else tickRate)))
      | DIRECTION NONE \<Rightarrow> Inr (state, tickRate)
      | DIRECTION d \<Rightarrow>
          if direction state = NONE then Inr (state\<lparr>direction := d\<rparr>, tickRate)
          else Inr (state, tickRate)
      | RESTART \<Rightarrow> Inr ((initialState k0)\<lparr>highscore := highscore state\<rparr>, TICK_RATE_MS)
      | ROTATE \<Rightarrow>
          (let rotated = rotateBlock (block state) (currentBlockType state)
           in if \<not> isOutOfBound rotated \<and> \<not> willCollide rotated (grid state)
              then Inr (state\<lparr>block := rotated\<rparr>, tickRate)
              else Inr (state\<lparr>gamePaused := \<not> gamePaused state\<rparr>, tickRate))
      | PAUSE \<Rightarrow> Inr (state\<lparr>gamePaused := \<not> gamePaused state\<rparr>, tickRate))"

text \<open>
  \<open>scan\<close> over a list of events, from a given accumulator. An exception ends the
  stream: the fold stops at the first failure. The subscriber of \<open>game$\<close> unsubscribes
  at the first state with \<open>gameEnd\<close>; the fold does not stop there, so it reaches every
  state the program reaches, and the states a longer stream would add.
\<close>

fun game_scan :: "TetrominoKey \<Rightarrow> State \<times> rat \<Rightarrow> Event list \<Rightarrow> failure + (State \<times> rat)" where
  "game_scan k0 acc [] = Inr acc"
| "game_scan k0 acc (event # events) =
     (case game_reduce k0 acc event of
        Inl e \<Rightarrow> Inl e
      | Inr acc' \<Rightarrow> game_scan k0 acc' events)"

text \<open>The stream starts from \<open>initialState\<close> with \<open>tickRate$\<close> holding \<open>TICK_RATE_MS\<close>.\<close>

definition game_start :: "TetrominoKey \<Rightarrow> State \<times> rat" where
  "game_start k0 = (initialState k0, TICK_RATE_MS)"

section \<open>Notions of the specification\<close>

text \<open>
  The airborne step as the specification words it: the candidate advances every point
  by one row and shifts it by the pending direction; a candidate out of horizontal
  bounds gives way to the shape advanced by one row only; a colliding candidate leaves
  the shape where it was and marks it settled; otherwise the candidate is committed
  and the direction is reset.
\<close>

definition tick_airborne_spec :: "State \<Rightarrow> State" where
  "tick_airborne_spec s =
     (let dx = (case direction s of LEFT \<Rightarrow> - 1 | RIGHT \<Rightarrow> 1 | DOWN \<Rightarrow> 0 | NONE \<Rightarrow> 0);
          naive = map (\<lambda>p. \<lparr>x = x p + dx, y = y p + 1\<rparr>) (block s);
          fallen = map (\<lambda>p. \<lparr>x = x p, y = y p + 1\<rparr>) (block s);
          candidate = (if isOutOfBound naive then fallen else naive)
      in if willCollide candidate (grid s) then s\<lparr>blockSettled := True\<rparr>
         else s\<lparr>block := candidate, direction := NONE\<rparr>)"

text \<open>The cell \<open>g[p.y][p.x]\<close> of a grid, \<open>None\<close> where there is none.\<close>

definition readCell :: "'a list list \<Rightarrow> Point \<Rightarrow> 'a option" where
  "readCell g p = (case js_at g (y p) of None \<Rightarrow> None | Some row \<Rightarrow> js_at row (x p))"

text \<open>A full row has no free cell; \<open>fullRows\<close> counts the full rows of an occupancy grid.\<close>

definition isFullRow :: "int list \<Rightarrow> bool" where
  "isFullRow row = (\<not> list_ex (\<lambda>cell. cell = 0) row)"

definition fullRows :: "int list list \<Rightarrow> int" where
  "fullRows g = int (length (filter isFullRow g))"

definition isFullGameRow :: "Cell list \<Rightarrow> bool" where
  "isFullGameRow row = (\<not> list_ex (\<lambda>cell. cell \<noteq> FILLED) row)"

text \<open>
  The two grids in lockstep: the same shape, every occupancy cell 0 or 1, and 1 exactly
  where the cell-state grid says FILLED.
\<close>

definition inLockstep :: "int list list \<Rightarrow> Cell list list \<Rightarrow> bool" where
  "inLockstep g gg =
     list_all2
       (list_all2 (\<lambda>cell gcell. (cell = 1 \<and> gcell = FILLED) \<or> (cell = 0 \<and> gcell = EMPTY)))
       g gg"

text \<open>
  States on which no stamp can leave its row: the falling and the next shape are within
  the horizontal bounds, and every row of both grids is as wide as the grid.
\<close>

definition fullWidth :: "'a list list \<Rightarrow> bool" where
  "fullWidth g = list_all (\<lambda>row. int (length row) = GRID_WIDTH) g"

definition wellFormed :: "State \<Rightarrow> bool" where
  "wellFormed s =
     (\<not> isOutOfBound (block s) \<and> \<not> isOutOfBound (nextBlock s)
      \<and> fullWidth (grid s) \<and> fullWidth (gameGrid s))"

section \<open>States and event sequences used as examples\<close>

text \<open>The I piece in the rightmost column of the empty grid, with RIGHT pending.\<close>

definition wall_state :: State where
  "wall_state =
     (initialState Key_I)\<lparr>block := map (\<lambda>p. p\<lparr>x := 9\<rparr>) (TETROMINOS Key_I), direction := RIGHT\<rparr>"

text \<open>
  The square at rows 18 and 19, settled, closing the gap that the two bottom rows
  have in columns 4 and 5.
\<close>

definition two_rows_state :: State where
  "two_rows_state =
     (initialState Key_I)
       \<lparr>block := createSquareBlock 4 18,
        grid := replicate 18 (replicate 10 0) @ replicate 2 [1, 1, 1, 1, 0, 0, 1, 1, 1, 1],
        gameGrid := replicate 18 (replicate 10 EMPTY)
          @ replicate 2 [FILLED, FILLED, FILLED, FILLED, EMPTY, EMPTY, FILLED, FILLED, FILLED, FILLED],
        blockSettled := True\<rparr>"

text \<open>The square resting on the floor of the empty grid, not yet marked settled.\<close>

definition floor_state :: State where
  "floor_state = (initialState Key_I)\<lparr>block := createSquareBlock 4 18\<rparr>"

text \<open>
  Nine squares stacked in columns 4 and 5 from row 2 down, and the tenth square
  settled where it spawned, at rows 0 and 1.
\<close>

definition stack_state :: State where
  "stack_state =
     (initialState Key_I)
       \<lparr>grid := replicate 2 (replicate 10 0) @ replicate 18 [0, 0, 0, 0, 1, 1, 0, 0, 0, 0],
        gameGrid := replicate 2 (replicate 10 EMPTY)
          @ replicate 18 [EMPTY, EMPTY, EMPTY, EMPTY, FILLED, FILLED, EMPTY, EMPTY, EMPTY, EMPTY],
        blockSettled := True\<rparr>"

text \<open>
  A square settled in the top left corner of the empty grid: stamped, it fills cells
  of the top row, and no new piece would overlap it.
\<close>

definition corner_state :: State where
  "corner_state = (initialState Key_I)\<lparr>block := createSquareBlock 0 0, blockSettled := True\<rparr>"

text \<open>
  Event sequences that lead from the start to these states. \<open>steer d n\<close> queues the
  direction \<open>d\<close> before each of \<open>n\<close> ticks.
\<close>

definition steer :: "Direction \<Rightarrow> nat \<Rightarrow> Event list" where
  "steer d n = concat (replicate n [DIRECTION d, TICK Key_O Key_O])"

text \<open>
  Four squares are dropped in columns 0, 2, 6 and 8, and a fifth falls in column 4
  until it is marked settled.
\<close>

definition two_rows_events :: "Event list" where
  "two_rows_events =
     steer LEFT 4 @ replicate 16 (TICK Key_O Key_O)
     @ steer LEFT 2 @ replicate 18 (TICK Key_O Key_O)
     @ steer RIGHT 2 @ replicate 18 (TICK Key_O Key_O)
     @ steer RIGHT 4 @ replicate 15 (TICK Key_O Key_O) @ [TICK Key_O Key_I]
     @ replicate 19 (TICK Key_O Key_O)"

text \<open>Nine squares fall straight down, and the tenth is marked settled at the top.\<close>

definition stack_events :: "Event list" where
  "stack_events =
     concat (map (\<lambda>n. replicate n (TICK Key_O Key_O)) [20, 18, 16, 14, 12, 10, 8, 6])
     @ replicate 3 (TICK Key_O Key_O) @ [TICK Key_O Key_I, TICK Key_O Key_O]"

text \<open>
  The first square falls and is stamped, the I piece follows it and is steered four
  columns to the left, into column 0.
\<close>

definition left_wall_events :: "Event list" where
  "left_wall_events =
     replicate 20 (TICK Key_O Key_T) @ concat (replicate 4 [DIRECTION LEFT, TICK Key_O Key_T])"

text \<open>The first square falls and is stamped, the O piece follows it and is rotated.\<close>

definition square_events :: "Event list" where
  "square_events = replicate 21 (TICK Key_O Key_O) @ [ROTATE]"

section \<open>Auxiliary facts\<close>

lemma js_at_update:
  "js_at (xs[n := v]) i = (if i = int n \<and> n < length xs then Some v else js_at xs i)"
  by (auto simp: js_at_def nat_eq_iff)

lemma fullRows_clearFullRows:
  assumes "clearFullRows g gg = Inr (ng, ngg, k)"
  shows "k = fullRows g"
proof -
  have "length g = length (filter isFullRow g)
          + length (filter (\<lambda>row. list_ex (\<lambda>cell. cell = 0) row) g)"
    using sum_length_filter_compl[of "\<lambda>row. list_ex (\<lambda>cell. cell = 0) row" g]
    by (simp add: isFullRow_def[abs_def])
  with assms show ?thesis
    by (auto simp: clearFullRows_def Let_def fullRows_def split: if_splits option.splits)
qed

text \<open>Stamping: a stamped cell keeps its mark, and every point of the block gets one.\<close>

lemma readCell_stamp_other:
  assumes "js_at g (y p) = Some row" and "0 \<le> x p" and "x p < int (length row)"
    and "readCell g q = Some v"
  shows "readCell (g[nat (y p) := row[nat (x p) := v]]) q = Some v"
  using assms
  by (auto simp: readCell_def js_at_update js_at_def nth_list_update nat_eq_iff
      split: option.splits if_splits)

lemma readCell_stamp_same:
  assumes "js_at g (y p) = Some row" and "0 \<le> x p" and "x p < int (length row)"
  shows "readCell (g[nat (y p) := row[nat (x p) := v]]) p = Some v"
  using assms
  by (auto simp: readCell_def js_at_update js_at_def split: option.splits if_splits)

lemma stampBlock_keeps:
  "stampBlock ps g gg = Inr (ug, ugg) \<Longrightarrow>
     (readCell g q = Some 1 \<longrightarrow> readCell ug q = Some 1) \<and>
     (readCell gg q = Some FILLED \<longrightarrow> readCell ugg q = Some FILLED)"
proof (induction ps arbitrary: g gg)
  case Nil
  then show ?case by simp
next
  case (Cons p ps)
  from Cons.prems obtain row grow where
    r: "js_at g (y p) = Some row" "js_at gg (y p) = Some grow"
    by (auto split: option.splits)
  show ?case
  proof (cases "0 \<le> x p \<and> x p < int (length row) \<and> x p < int (length grow)")
    case True
    with Cons.prems r have
      "stampBlock ps (g[nat (y p) := row[nat (x p) := 1]])
         (gg[nat (y p) := grow[nat (x p) := FILLED]]) = Inr (ug, ugg)"
      by simp
    from Cons.IH[OF this] True r show ?thesis
      by (auto simp: readCell_stamp_other)
  next
    case False
    with Cons.prems r show ?thesis
      by (auto split: sum.splits failure.splits)
  qed
qed

lemma stampBlock_sets:
  "stampBlock ps g gg = Inr (ug, ugg) \<Longrightarrow> p \<in> set ps \<Longrightarrow>
     readCell ug p = Some 1 \<and> readCell ugg p = Some FILLED"
proof (induction ps arbitrary: g gg)
  case Nil
  then show ?case by simp
next
  case (Cons q ps)
  from Cons.prems obtain row grow where
    r: "js_at g (y q) = Some row" "js_at gg (y q) = Some grow"
    by (auto split: option.splits)
  show ?case
  proof (cases "0 \<le> x q \<and> x q < int (length row) \<and> x q < int (length grow)")
    case True
    with Cons.prems r have st:
      "stampBlock ps (g[nat (y q) := row[nat (x q) := 1]])
         (gg[nat (y q) := grow[nat (x q) := FILLED]]) = Inr (ug, ugg)"
      by simp
    show ?thesis
    proof (cases "p = q")
      case True
      with stampBlock_keeps[OF st, of q] \<open>0 \<le> x q \<and> _\<close> r show ?thesis
        by (simp add: readCell_stamp_same)
    next
      case False
      with Cons.prems have "p \<in> set ps" by simp
      from Cons.IH[OF st this] show ?thesis .
    qed
  next
    case False
    with Cons.prems r show ?thesis
      by (auto split: sum.splits failure.splits)
  qed
qed

text \<open>Row clearing, in terms of full rows; what lockstep gives.\<close>

lemma clearFullRows_eq:
  "clearFullRows g gg =
     (if fullRows g \<le> 0
      then Inr (filter (\<lambda>row. \<not> isFullRow row) g,
                filter (\<lambda>row. \<not> isFullGameRow row) gg, fullRows g)
      else (case (js_at g 0, js_at gg 0) of
              (Some row0, Some grow0) \<Rightarrow>
                Inr (replicate (nat (fullRows g)) (replicate (length row0) 0)
                       @ filter (\<lambda>row. \<not> isFullRow row) g,
                     replicate (nat (fullRows g)) (replicate (length grow0) EMPTY)
                       @ filter (\<lambda>row. \<not> isFullGameRow row) gg,
                     fullRows g)
            | _ \<Rightarrow> Inl TypeError))"
proof -
  have "length g = length (filter isFullRow g)
          + length (filter (\<lambda>row. list_ex (\<lambda>cell. cell = 0) row) g)"
    using sum_length_filter_compl[of "\<lambda>row. list_ex (\<lambda>cell. cell = 0) row" g]
    by (simp add: isFullRow_def[abs_def])
  then have k:
    "int (length g) - int (length (filter (\<lambda>row. list_ex (\<lambda>cell. cell = 0) row) g)) = fullRows g"
    by (simp add: fullRows_def)
  show ?thesis
    unfolding clearFullRows_def Let_def k
    by (simp add: isFullRow_def isFullGameRow_def split: option.splits)
qed

lemma lockstep_row_full:
  "list_all2 (\<lambda>cell gcell. (cell = (1::int) \<and> gcell = FILLED) \<or> (cell = 0 \<and> gcell = EMPTY))
     row grow \<Longrightarrow> isFullRow row = isFullGameRow grow"
  by (induction rule: list_all2_induct) (auto simp: isFullRow_def isFullGameRow_def)

lemma lockstep_filter_length:
  "inLockstep g gg \<Longrightarrow>
     length (filter isFullGameRow gg) = length (filter isFullRow g)
     \<and> length (filter (\<lambda>row. \<not> isFullGameRow row) gg)
         = length (filter (\<lambda>row. \<not> isFullRow row) g)"
  unfolding inLockstep_def
  by (induction rule: list_all2_induct) (auto dest: lockstep_row_full)

lemma lockstep_widths:
  "inLockstep g gg \<Longrightarrow> list_all (\<lambda>row. length row = w) g
     \<Longrightarrow> list_all (\<lambda>row. length row = w) gg"
  unfolding inLockstep_def
  by (induction rule: list_all2_induct) (auto dest: list_all2_lengthD)

text \<open>
  Fields that no event writes: \<open>highscore\<close>, \<open>currentBlockType\<close> and \<open>clearedRows\<close>
  keep their initial values along every event sequence, and with \<open>clearedRows\<close> at 0 the
  subject \<open>tickRate$\<close> keeps \<open>TICK_RATE_MS\<close>.
\<close>

lemma tick_keeps:
  assumes "tick s k1 k2 = Inr s'"
  shows "highscore s' = highscore s \<and> currentBlockType s' = currentBlockType s
         \<and> clearedRows s' = clearedRows s"
  using assms
  by (auto simp: tick_def Let_def split: if_splits sum.splits option.splits)

lemma game_reduce_keeps:
  assumes "game_reduce k0 (s, r) event = Inr (s', r')"
    and "highscore s = 0" and "currentBlockType s = ''I''" and "clearedRows s = 0"
    and "r = TICK_RATE_MS"
  shows "highscore s' = 0 \<and> currentBlockType s' = ''I'' \<and> clearedRows s' = 0
         \<and> r' = TICK_RATE_MS"
proof (cases event)
  case (TICK k1 k2)
  with assms obtain t where t: "tick s k1 k2 = Inr t"
    and eq: "s' = t"
      "r' = (if getTickRate (clearedRows t) \<noteq> r then getTickRate (clearedRows t) else r)"
    by (auto simp: game_reduce_def Let_def split: sum.splits)
  from tick_keeps[OF t] assms eq show ?thesis
    by (simp add: getTickRate_def)
next
  case (DIRECTION d)
  with assms show ?thesis
    by (cases d) (auto simp: game_reduce_def Let_def split: if_splits)
next
  case RESTART
  with assms show ?thesis
    by (auto simp: game_reduce_def Let_def initialState_def)
next
  case ROTATE
  with assms show ?thesis
    by (auto simp: game_reduce_def Let_def split: if_splits)
next
  case PAUSE
  with assms show ?thesis
    by (auto simp: game_reduce_def Let_def)
qed

lemma game_scan_keeps:
  assumes "game_scan k0 acc events = Inr acc'"
    and "highscore (fst acc) = 0" and "currentBlockType (fst acc) = ''I''"
    and "clearedRows (fst acc) = 0" and "snd acc = TICK_RATE_MS"
  shows "highscore (fst acc') = 0 \<and> currentBlockType (fst acc') = ''I''
         \<and> clearedRows (fst acc') = 0 \<and> snd acc' = TICK_RATE_MS"
  using assms
proof (induction events arbitrary: acc)
  case Nil
  then show ?case by simp
next
  case (Cons event events)
  from Cons.prems(1) obtain mid where
    step: "game_reduce k0 acc event = Inr mid" and rest: "game_scan k0 mid events = Inr acc'"
    by (auto split: sum.splits)
  from step have "game_reduce k0 (fst acc, snd acc) event = Inr (fst mid, snd mid)" by simp
  from game_reduce_keeps[OF this Cons.prems(2-5)]
  have "highscore (fst mid) = 0" "currentBlockType (fst mid) = ''I''"
       "clearedRows (fst mid) = 0" "snd mid = TICK_RATE_MS"
    by simp_all
  from Cons.IH[OF rest this] show ?case .
qed

lemma game_start_fields:
  "highscore (fst (game_start k0)) = 0" "currentBlockType (fst (game_start k0)) = ''I''"
  "clearedRows (fst (game_start k0)) = 0" "snd (game_start k0) = TICK_RATE_MS"
  by (simp_all add: game_start_def initialState_def)

text \<open>The example states are states of the game: the event sequences lead to them.\<close>

lemma two_rows_state_reached:
  "game_scan Key_O (game_start Key_O) two_rows_events = Inr (two_rows_state, TICK_RATE_MS)"
  by code_simp

lemma stack_state_reached:
  "game_scan Key_O (game_start Key_O) stack_events = Inr (stack_state, TICK_RATE_MS)"
  by code_simp

text \<open>
  What \<open>ROTATE\<close> does in general: an accepted rotation replaces the block and nothing
  else; a rejected one toggles \<open>gamePaused\<close>, as \<open>PAUSE\<close> does.
\<close>

lemma rotate_accepted:
  assumes "\<not> isOutOfBound (rotateBlock (block s) (currentBlockType s))"
    and "\<not> willCollide (rotateBlock (block s) (currentBlockType s)) (grid s)"
  shows "game_reduce k0 (s, r) ROTATE
           = Inr (s\<lparr>block := rotateBlock (block s) (currentBlockType s)\<rparr>, r)"
  using assms by (simp add: game_reduce_def Let_def)

lemma rotate_rejected:
  assumes "isOutOfBound (rotateBlock (block s) (currentBlockType s))
           \<or> willCollide (rotateBlock (block s) (currentBlockType s)) (grid s)"
  shows "game_reduce k0 (s, r) ROTATE = game_reduce k0 (s, r) PAUSE"
    and "game_reduce k0 (s, r) ROTATE = Inr (s\<lparr>gamePaused := \<not> gamePaused s\<rparr>, r)"
  using assms by (auto simp: game_reduce_def Let_def)

text \<open>
  No run from the initial state meets the border of the embedding: \<open>wellFormed\<close> holds
  initially, every event keeps it, and a well-formed state never makes a
  \<open>SparseWrite\<close>.
\<close>

lemma js_at_mem: "js_at xs i = Some v \<Longrightarrow> v \<in> set xs"
  by (auto simp: js_at_def split: if_splits)

lemma fullWidth_update:
  assumes "fullWidth g" and "js_at g i = Some row"
  shows "fullWidth (g[n := row[m := v]])"
proof -
  from assms have "int (length row) = GRID_WIDTH"
    by (auto simp: fullWidth_def list_all_iff dest: js_at_mem)
  with assms(1) show ?thesis
    by (auto simp: fullWidth_def list_all_iff dest!: subsetD[OF set_update_subset_insert])
qed

lemma stampBlock_fullWidth:
  "stampBlock ps g gg = Inr (ug, ugg) \<Longrightarrow> fullWidth g \<Longrightarrow> fullWidth gg
     \<Longrightarrow> fullWidth ug \<and> fullWidth ugg"
proof (induction ps arbitrary: g gg)
  case Nil
  then show ?case by simp
next
  case (Cons p ps)
  from Cons.prems(1) obtain row grow where
    r: "js_at g (y p) = Some row" "js_at gg (y p) = Some grow"
    by (auto split: option.splits)
  show ?case
  proof (cases "0 \<le> x p \<and> x p < int (length row) \<and> x p < int (length grow)")
    case True
    with Cons.prems r have st:
      "stampBlock ps (g[nat (y p) := row[nat (x p) := 1]])
         (gg[nat (y p) := grow[nat (x p) := FILLED]]) = Inr (ug, ugg)"
      by simp
    from Cons.IH[OF st fullWidth_update[OF Cons.prems(2) r(1)] fullWidth_update[OF Cons.prems(3) r(2)]]
    show ?thesis .
  next
    case False
    with Cons.prems r show ?thesis
      by (auto split: sum.splits failure.splits)
  qed
qed

lemma stampBlock_not_sparse:
  "\<not> isOutOfBound ps \<Longrightarrow> fullWidth g \<Longrightarrow> fullWidth gg
     \<Longrightarrow> stampBlock ps g gg \<noteq> Inl SparseWrite"
proof (induction ps arbitrary: g gg)
  case Nil
  then show ?case by simp
next
  case (Cons p ps)
  from Cons.prems(1) have px: "0 \<le> x p" "x p < GRID_WIDTH" and rest: "\<not> isOutOfBound ps"
    by (auto simp: isOutOfBound_def)
  show ?case
  proof (cases "js_at g (y p)")
    case None
    then show ?thesis by simp
  next
    case (Some row)
    note row = this
    show ?thesis
    proof (cases "js_at gg (y p)")
      case None
      with row show ?thesis by simp
    next
      case (Some grow)
      from row Cons.prems(2) have "int (length row) = GRID_WIDTH"
        by (auto simp: fullWidth_def list_all_iff dest: js_at_mem)
      moreover from Some Cons.prems(3) have "int (length grow) = GRID_WIDTH"
        by (auto simp: fullWidth_def list_all_iff dest: js_at_mem)
      ultimately have inr: "0 \<le> x p \<and> x p < int (length row) \<and> x p < int (length grow)"
        using px by simp
      from Cons.IH[OF rest fullWidth_update[OF Cons.prems(2) row] fullWidth_update[OF Cons.prems(3) Some]]
      show ?thesis using row Some inr by simp
    qed
  qed
qed

lemma clearFullRows_fullWidth:
  assumes "clearFullRows g gg = Inr (ng, ngg, k)" and "fullWidth g" and "fullWidth gg"
  shows "fullWidth ng \<and> fullWidth ngg"
proof (cases "fullRows g \<le> 0")
  case True
  with assms show ?thesis
    by (auto simp: clearFullRows_eq fullWidth_def list_all_iff)
next
  case False
  with assms(1) obtain row0 grow0 where r: "js_at g 0 = Some row0" "js_at gg 0 = Some grow0"
    by (auto simp: clearFullRows_eq split: option.splits)
  with assms(2,3) have "int (length row0) = GRID_WIDTH" "int (length grow0) = GRID_WIDTH"
    by (auto simp: fullWidth_def list_all_iff dest: js_at_mem)
  with False assms r show ?thesis
    by (auto simp: clearFullRows_eq fullWidth_def list_all_iff)
qed

lemma clearFullRows_not_sparse: "clearFullRows g gg \<noteq> Inl SparseWrite"
  by (auto simp: clearFullRows_def Let_def split: option.splits)

lemma newBlock_in_bounds: "\<not> isOutOfBound (newBlock k)"
  by (cases k) (simp_all add: newBlock_def isOutOfBound_def GRID_WIDTH_def)

lemma tick_wellFormed:
  assumes "wellFormed s"
  shows "tick s k1 k2 \<noteq> Inl SparseWrite"
    and "tick s k1 k2 = Inr s' \<Longrightarrow> wellFormed s'"
proof -
  from assms have wf: "\<not> isOutOfBound (block s)" "\<not> isOutOfBound (nextBlock s)"
    "fullWidth (grid s)" "fullWidth (gameGrid s)"
    by (simp_all add: wellFormed_def)
  from stampBlock_not_sparse[OF wf(1,3,4)]
  show "tick s k1 k2 \<noteq> Inl SparseWrite"
    by (auto simp: tick_def Let_def clearFullRows_not_sparse split: sum.splits option.splits)
  assume t: "tick s k1 k2 = Inr s'"
  show "wellFormed s'"
  proof (cases "gameEnd s \<or> gamePaused s")
    case True
    with t assms show ?thesis by (auto simp: tick_def)
  next
    case idle: False
    show ?thesis
    proof (cases "blockSettled s")
      case True
      with idle t obtain ug ugg where st: "stampBlock (block s) (grid s) (gameGrid s) = Inr (ug, ugg)"
        by (auto simp: tick_def split: sum.splits)
      from stampBlock_fullWidth[OF st wf(3,4)] have u: "fullWidth ug" "fullWidth ugg" by simp_all
      show ?thesis
      proof (cases "gameEnd s'")
        case True
        with idle \<open>blockSettled s\<close> t st have "s' = s\<lparr>gameEnd := True\<rparr>"
          by (auto simp: tick_def Let_def split: sum.splits option.splits if_splits)
        with assms show ?thesis by (simp add: wellFormed_def)
      next
        case False
        with idle \<open>blockSettled s\<close> t st obtain ng ngg k where
          cl: "clearFullRows ug ugg = Inr (ng, ngg, k)"
          and s': "block s' = nextBlock s" "nextBlock s' = newBlock k2" "grid s' = ng" "gameGrid s' = ngg"
          by (auto simp: tick_def Let_def split: sum.splits option.splits if_splits)
        from clearFullRows_fullWidth[OF cl u] s' wf(2) newBlock_in_bounds[of k2]
        show ?thesis by (simp add: wellFormed_def)
      qed
    next
      case False
      let ?shift = "(if direction s = LEFT then - 1 else if direction s = RIGHT then 1 else 0 :: int)"
      let ?shifted = "map (\<lambda>p. \<lparr>x = x p + ?shift, y = y p + 1\<rparr>) (block s)"
      let ?cand = "if isOutOfBound ?shifted then map (\<lambda>p. p\<lparr>x := x p - ?shift\<rparr>) ?shifted else ?shifted"
      have "\<not> isOutOfBound ?cand"
        using wf(1) by (auto simp: isOutOfBound_def list_ex_iff)
      moreover from idle False t have "s' = s\<lparr>blockSettled := True\<rparr> \<or> s' = s\<lparr>block := ?cand, direction := NONE\<rparr>"
        by (auto simp: tick_def Let_def split: if_splits)
      ultimately show ?thesis using assms by (auto simp: wellFormed_def)
    qed
  qed
qed

lemma initialState_wellFormed: "wellFormed (initialState k0)"
  using newBlock_in_bounds[of k0]
  by (simp add: wellFormed_def initialState_def fullWidth_def emptyGameGrid_def
      createSquareBlock_def STARTING_POSITION_def isOutOfBound_def GRID_WIDTH_def GRID_HEIGHT_def
      list_all_iff)

lemma game_reduce_wellFormed:
  assumes "wellFormed (fst acc)"
  shows "game_reduce k0 acc event \<noteq> Inl SparseWrite"
    and "game_reduce k0 acc event = Inr acc' \<Longrightarrow> wellFormed (fst acc')"
proof -
  show "game_reduce k0 acc event \<noteq> Inl SparseWrite"
  proof (cases event)
    case (TICK k1 k2)
    with tick_wellFormed(1)[OF assms, of k1 k2] show ?thesis
      by (auto simp: game_reduce_def Let_def split: sum.splits)
  next
    case (DIRECTION d)
    then show ?thesis by (cases d) (auto simp: game_reduce_def Let_def)
  qed (auto simp: game_reduce_def Let_def)
  assume r: "game_reduce k0 acc event = Inr acc'"
  show "wellFormed (fst acc')"
  proof (cases event)
    case (TICK k1 k2)
    with r obtain t where "tick (fst acc) k1 k2 = Inr t" "fst acc' = t"
      by (auto simp: game_reduce_def Let_def split: sum.splits)
    with tick_wellFormed(2)[OF assms] show ?thesis by simp
  next
    case (DIRECTION d)
    with r assms show ?thesis
      by (cases d) (auto simp: game_reduce_def Let_def wellFormed_def split: if_splits)
  next
    case RESTART
    with r initialState_wellFormed[of k0] show ?thesis
      by (auto simp: game_reduce_def Let_def wellFormed_def)
  next
    case ROTATE
    with r assms show ?thesis
      by (auto simp: game_reduce_def Let_def wellFormed_def split: if_splits)
  next
    case PAUSE
    with r assms show ?thesis
      by (auto simp: game_reduce_def Let_def wellFormed_def)
  qed
qed

lemma game_scan_wellFormed:
  assumes "wellFormed (fst acc)"
  shows "game_scan k0 acc events \<noteq> Inl SparseWrite
         \<and> (\<forall>acc'. game_scan k0 acc events = Inr acc' \<longrightarrow> wellFormed (fst acc'))"
  using assms
proof (induction events arbitrary: acc)
  case Nil
  then show ?case by simp
next
  case (Cons event events)
  show ?case
  proof (cases "game_reduce k0 acc event")
    case (Inl e)
    with game_reduce_wellFormed(1)[OF Cons.prems, of k0 event] show ?thesis by auto
  next
    case (Inr mid)
    from game_reduce_wellFormed(2)[OF Cons.prems Inr] have "wellFormed (fst mid)" .
    from Cons.IH[OF this] Inr show ?thesis by simp
  qed
qed

lemma game_never_sparse: "game_scan k0 (game_start k0) events \<noteq> Inl SparseWrite"
  using game_scan_wellFormed[of "game_start k0" k0 events] initialState_wellFormed[of k0]
  by (simp add: game_start_def)

text \<open>
  The two grids of the game stay in lockstep: they start so, stamping and clearing keep
  them so, and the grids that \<open>tick\<close> hands to \<open>clearFullRows\<close> are in lockstep and as
  wide as the grid.
\<close>

lemma js_at_list_all2:
  assumes "list_all2 P xs ys" and "js_at xs i = Some a" and "js_at ys i = Some b"
  shows "P a b"
  using assms by (auto simp: js_at_def list_all2_conv_all_nth split: if_splits)

lemma stampBlock_lockstep:
  "stampBlock ps g gg = Inr (ug, ugg) \<Longrightarrow> inLockstep g gg \<Longrightarrow> inLockstep ug ugg"
proof (induction ps arbitrary: g gg)
  case Nil
  then show ?case by simp
next
  case (Cons p ps)
  from Cons.prems(1) obtain row grow where
    r: "js_at g (y p) = Some row" "js_at gg (y p) = Some grow"
    by (auto split: option.splits)
  show ?case
  proof (cases "0 \<le> x p \<and> x p < int (length row) \<and> x p < int (length grow)")
    case True
    with Cons.prems r have st:
      "stampBlock ps (g[nat (y p) := row[nat (x p) := 1]])
         (gg[nat (y p) := grow[nat (x p) := FILLED]]) = Inr (ug, ugg)"
      by simp
    from Cons.prems(2) r have
      "list_all2 (\<lambda>cell gcell. (cell = 1 \<and> gcell = FILLED) \<or> (cell = 0 \<and> gcell = EMPTY)) row grow"
      unfolding inLockstep_def by (rule js_at_list_all2)
    then have
      "list_all2 (\<lambda>cell gcell. (cell = 1 \<and> gcell = FILLED) \<or> (cell = 0 \<and> gcell = EMPTY))
         (row[nat (x p) := 1]) (grow[nat (x p) := FILLED])"
      by (rule list_all2_update_cong) simp
    with Cons.prems(2) have
      "inLockstep (g[nat (y p) := row[nat (x p) := 1]]) (gg[nat (y p) := grow[nat (x p) := FILLED]])"
      unfolding inLockstep_def by (rule list_all2_update_cong)
    from Cons.IH[OF st this] show ?thesis .
  next
    case False
    with Cons.prems r show ?thesis
      by (auto split: sum.splits failure.splits)
  qed
qed

lemma lockstep_filter:
  "inLockstep g gg \<Longrightarrow>
     inLockstep (filter (\<lambda>row. \<not> isFullRow row) g) (filter (\<lambda>row. \<not> isFullGameRow row) gg)"
  unfolding inLockstep_def
  by (induction rule: list_all2_induct) (auto dest: lockstep_row_full)

lemma lockstep_fresh_rows:
  "inLockstep (replicate n (replicate w 0)) (replicate n (replicate w EMPTY))"
  by (simp add: inLockstep_def list_all2_conv_all_nth)

lemma clearFullRows_lockstep_kept:
  assumes "clearFullRows g gg = Inr (ng, ngg, k)" and "inLockstep g gg"
  shows "inLockstep ng ngg"
proof (cases "fullRows g \<le> 0")
  case True
  with assms lockstep_filter[OF assms(2)] show ?thesis
    by (auto simp: clearFullRows_eq)
next
  case False
  with assms(1) obtain row0 grow0 where r: "js_at g 0 = Some row0" "js_at gg 0 = Some grow0"
    by (auto simp: clearFullRows_eq split: option.splits)
  from assms(2) r have
    "list_all2 (\<lambda>cell gcell. (cell = 1 \<and> gcell = FILLED) \<or> (cell = 0 \<and> gcell = EMPTY)) row0 grow0"
    unfolding inLockstep_def by (rule js_at_list_all2)
  then have "length row0 = length grow0" by (rule list_all2_lengthD)
  with False assms(1) r lockstep_filter[OF assms(2)]
    lockstep_fresh_rows[of "nat (fullRows g)" "length grow0"]
  show ?thesis
    by (auto simp: clearFullRows_eq inLockstep_def intro: list_all2_appendI)
qed

lemma tick_lockstep:
  assumes "tick s k1 k2 = Inr s'" and "inLockstep (grid s) (gameGrid s)"
  shows "inLockstep (grid s') (gameGrid s')"
proof (cases "\<not> gameEnd s \<and> \<not> gamePaused s \<and> blockSettled s \<and> \<not> gameEnd s'")
  case True
  with assms(1) obtain ug ugg ng ngg k where
    st: "stampBlock (block s) (grid s) (gameGrid s) = Inr (ug, ugg)"
    and cl: "clearFullRows ug ugg = Inr (ng, ngg, k)"
    and s': "grid s' = ng" "gameGrid s' = ngg"
    by (auto simp: tick_def Let_def split: sum.splits option.splits if_splits)
  from clearFullRows_lockstep_kept[OF cl stampBlock_lockstep[OF st assms(2)]] s'
  show ?thesis by simp
next
  case False
  with assms(1) have "grid s' = grid s \<and> gameGrid s' = gameGrid s"
    by (auto simp: tick_def Let_def split: sum.splits option.splits if_splits)
  with assms(2) show ?thesis by simp
qed

lemma initialState_lockstep: "inLockstep (grid (initialState k0)) (gameGrid (initialState k0))"
  by (simp add: initialState_def emptyGameGrid_def inLockstep_def list_all2_conv_all_nth)

lemma game_reduce_lockstep:
  assumes "game_reduce k0 acc event = Inr acc'" and "inLockstep (grid (fst acc)) (gameGrid (fst acc))"
  shows "inLockstep (grid (fst acc')) (gameGrid (fst acc'))"
proof (cases event)
  case (TICK k1 k2)
  with assms(1) obtain t where "tick (fst acc) k1 k2 = Inr t" "fst acc' = t"
    by (auto simp: game_reduce_def Let_def split: sum.splits)
  with tick_lockstep[OF _ assms(2)] show ?thesis by simp
next
  case (DIRECTION d)
  with assms show ?thesis
    by (cases d) (auto simp: game_reduce_def Let_def split: if_splits)
next
  case RESTART
  with assms(1) initialState_lockstep[of k0] show ?thesis
    by (auto simp: game_reduce_def Let_def)
next
  case ROTATE
  with assms show ?thesis
    by (auto simp: game_reduce_def Let_def split: if_splits)
next
  case PAUSE
  with assms show ?thesis
    by (auto simp: game_reduce_def Let_def)
qed

lemma game_scan_lockstep:
  assumes "game_scan k0 acc events = Inr acc'" and "inLockstep (grid (fst acc)) (gameGrid (fst acc))"
  shows "inLockstep (grid (fst acc')) (gameGrid (fst acc'))"
  using assms
proof (induction events arbitrary: acc)
  case Nil
  then show ?case by simp
next
  case (Cons event events)
  from Cons.prems(1) obtain mid where
    step: "game_reduce k0 acc event = Inr mid" and rest: "game_scan k0 mid events = Inr acc'"
    by (auto split: sum.splits)
  from Cons.IH[OF rest game_reduce_lockstep[OF step Cons.prems(2)]] show ?case .
qed

lemma game_clears_lockstep_grids:
  assumes "game_scan k0 (game_start k0) events = Inr (s, r)"
    and "stampBlock (block s) (grid s) (gameGrid s) = Inr (ug, ugg)"
  shows "inLockstep ug ugg \<and> list_all (\<lambda>row. length row = nat GRID_WIDTH) ug"
proof -
  from game_scan_lockstep[OF assms(1)] initialState_lockstep[of k0]
  have "inLockstep (grid s) (gameGrid s)" by (simp add: game_start_def)
  from stampBlock_lockstep[OF assms(2) this] have l: "inLockstep ug ugg" .
  from game_scan_wellFormed[of "game_start k0" k0 events] initialState_wellFormed[of k0] assms(1)
  have "wellFormed s" by (simp add: game_start_def)
  then have "fullWidth (grid s)" "fullWidth (gameGrid s)" by (simp_all add: wellFormed_def)
  from stampBlock_fullWidth[OF assms(2) this] have "fullWidth ug" by simp
  then have "list_all (\<lambda>row. length row = nat GRID_WIDTH) ug"
    by (auto simp: fullWidth_def list_all_iff)
  with l show ?thesis by simp
qed

section \<open>The tick\<close>

text \<open>
  C7. A tick of a state that is terminated or paused returns that very state: every
  field keeps its value.
\<close>

theorem tick_terminated_or_paused:
  "gameEnd s \<or> gamePaused s \<Longrightarrow> tick s k1 k2 = Inr s"
  by (auto simp: tick_def)

theorem tick_terminated_or_paused_witness:
  "(gameEnd ((initialState Key_I)\<lparr>gamePaused := True\<rparr>)
      \<or> gamePaused ((initialState Key_I)\<lparr>gamePaused := True\<rparr>))
   \<and> tick ((initialState Key_I)\<lparr>gamePaused := True\<rparr>) Key_O Key_T
       = Inr ((initialState Key_I)\<lparr>gamePaused := True\<rparr>)
   \<and> (gameEnd (stack_state\<lparr>gameEnd := True\<rparr>) \<or> gamePaused (stack_state\<lparr>gameEnd := True\<rparr>))
   \<and> tick (stack_state\<lparr>gameEnd := True\<rparr>) Key_O Key_T = Inr (stack_state\<lparr>gameEnd := True\<rparr>)"
proof -
  have h: "gameEnd ((initialState Key_I)\<lparr>gamePaused := True\<rparr>)
             \<or> gamePaused ((initialState Key_I)\<lparr>gamePaused := True\<rparr>)"
    by simp
  have h': "gameEnd (stack_state\<lparr>gameEnd := True\<rparr>) \<or> gamePaused (stack_state\<lparr>gameEnd := True\<rparr>)"
    by simp
  from tick_terminated_or_paused[OF h, of Key_O Key_T]
    tick_terminated_or_paused[OF h', of Key_O Key_T] h h'
  show ?thesis by simp
qed

text \<open>
  C6. On a state that is neither terminated, paused nor settled, a tick returns what
  \<open>tick_airborne_spec\<close> describes: the candidate is the shape one row down, shifted by
  -1, 0 or +1 after the pending direction; out of horizontal bounds, only the shift is
  undone; a colliding candidate leaves the shape in place, marked settled; otherwise
  the candidate becomes the shape and the direction becomes NONE.
\<close>

theorem tick_airborne:
  assumes "\<not> gameEnd s" and "\<not> gamePaused s" and "\<not> blockSettled s"
  shows "tick s k1 k2 = Inr (tick_airborne_spec s)"
  using assms
  by (cases "direction s") (simp_all add: tick_def tick_airborne_spec_def Let_def o_def)

theorem tick_airborne_witness:
  "\<not> gameEnd wall_state \<and> \<not> gamePaused wall_state \<and> \<not> blockSettled wall_state
   \<and> isOutOfBound (map (\<lambda>p. \<lparr>x = x p + 1, y = y p + 1\<rparr>) (block wall_state))
   \<and> tick wall_state Key_O Key_T
       = Inr (wall_state
               \<lparr>block := [\<lparr>x = 9, y = 1\<rparr>, \<lparr>x = 9, y = 2\<rparr>, \<lparr>x = 9, y = 3\<rparr>, \<lparr>x = 9, y = 4\<rparr>],
                direction := NONE\<rparr>)"
proof -
  have a: "\<not> gameEnd wall_state" "\<not> gamePaused wall_state" "\<not> blockSettled wall_state"
    by (simp_all add: wall_state_def initialState_def)
  have b: "isOutOfBound (map (\<lambda>p. \<lparr>x = x p + 1, y = y p + 1\<rparr>) (block wall_state))"
    by code_simp
  have c: "tick_airborne_spec wall_state
             = wall_state
                 \<lparr>block := [\<lparr>x = 9, y = 1\<rparr>, \<lparr>x = 9, y = 2\<rparr>, \<lparr>x = 9, y = 3\<rparr>, \<lparr>x = 9, y = 4\<rparr>],
                  direction := NONE\<rparr>"
    by code_simp
  from tick_airborne[OF a, of Key_O Key_T] a b c show ?thesis by simp
qed

text \<open>
  C5. When the settled branch of a tick runs to its end (the result is a state that is
  not terminated), the score grows by 10 for each full row of the stamped occupancy
  grid, these being the rows cleared in this step, and the level grows by exactly 1 if
  there is at least one such row, however many there are, and stays otherwise.
\<close>

theorem settled_tick_score_level:
  assumes "\<not> gameEnd s" and "\<not> gamePaused s" and "blockSettled s"
    and "tick s k1 k2 = Inr s'" and "\<not> gameEnd s'"
  shows "\<exists>ug ugg. stampBlock (block s) (grid s) (gameGrid s) = Inr (ug, ugg)
           \<and> score s' = score s + 10 * fullRows ug
           \<and> currentLevel s' = (if fullRows ug \<ge> 1 then currentLevel s + 1 else currentLevel s)"
proof -
  from assms obtain ug ugg where st: "stampBlock (block s) (grid s) (gameGrid s) = Inr (ug, ugg)"
    by (auto simp: tick_def split: sum.splits)
  from assms st obtain ng ngg k where
    cl: "clearFullRows ug ugg = Inr (ng, ngg, k)"
    and s': "s' = s\<lparr>block := nextBlock s, nextBlock := newBlock k2, blockSettled := False,
                    direction := NONE, grid := ng, gameGrid := ngg, score := score s + 10 * k,
                    currentLevel := (if k > 0 then currentLevel s + 1 else currentLevel s)\<rparr>"
    by (auto simp: tick_def Let_def split: sum.splits option.splits if_splits)
  from fullRows_clearFullRows[OF cl] have "k = fullRows ug" .
  with st s' show ?thesis by auto
qed

theorem settled_tick_score_level_witness:
  "\<not> gameEnd two_rows_state \<and> \<not> gamePaused two_rows_state \<and> blockSettled two_rows_state
   \<and> (\<exists>s'. tick two_rows_state Key_I Key_O = Inr s' \<and> \<not> gameEnd s'
          \<and> score s' = score two_rows_state + 20
          \<and> currentLevel s' = currentLevel two_rows_state + 1)"
proof -
  have a: "\<not> gameEnd two_rows_state" "\<not> gamePaused two_rows_state" "blockSettled two_rows_state"
    by (simp_all add: two_rows_state_def initialState_def)
  have "case tick two_rows_state Key_I Key_O of Inl e \<Rightarrow> False | Inr s' \<Rightarrow> \<not> gameEnd s'"
    by code_simp
  then obtain s' where t: "tick two_rows_state Key_I Key_O = Inr s'" and e: "\<not> gameEnd s'"
    by (auto split: sum.splits)
  from settled_tick_score_level[OF a t e] obtain ug ugg where
    st: "stampBlock (block two_rows_state) (grid two_rows_state) (gameGrid two_rows_state)
           = Inr (ug, ugg)"
    and sc: "score s' = score two_rows_state + 10 * fullRows ug"
    and lv: "currentLevel s' = (if fullRows ug \<ge> 1 then currentLevel two_rows_state + 1
                                else currentLevel two_rows_state)"
    by blast
  have "case stampBlock (block two_rows_state) (grid two_rows_state) (gameGrid two_rows_state) of
          Inl e \<Rightarrow> False | Inr (ug, ugg) \<Rightarrow> fullRows ug = 2"
    by code_simp
  with st have "fullRows ug = 2" by simp
  with a t e sc lv show ?thesis by auto
qed

text \<open>
  C3, as the code has it. In the settled branch the points of the shape are stamped
  into copies of the two grids, and the two conditions of game over are evaluated on
  the stamped copy: the state that the tick returns is terminated exactly when the new
  piece collides with the stamped grid or the top row of the stamped grid has an
  occupied cell. When it is terminated, it is the input with only \<open>gameEnd\<close> set: its
  grids are the grids before stamping, the stamped copies are dropped, and the settled
  shape stays in \<open>block\<close>.
\<close>

theorem settled_tick_game_over:
  assumes "blockSettled s" and "\<not> gameEnd s" and "\<not> gamePaused s"
    and "tick s k1 k2 = Inr s'"
  shows "\<exists>ug ugg. stampBlock (block s) (grid s) (gameGrid s) = Inr (ug, ugg)
           \<and> list_all (\<lambda>p. readCell ug p = Some 1 \<and> readCell ugg p = Some FILLED) (block s)
           \<and> (gameEnd s' \<longleftrightarrow>
                (willCollide (newBlock k1) ug
                 \<or> (\<exists>top_row. js_at ug 0 = Some top_row \<and> list_ex (\<lambda>cell. cell = 1) top_row)))
           \<and> (gameEnd s' \<longrightarrow>
                s' = s\<lparr>gameEnd := True\<rparr>
                \<and> grid s' = grid s \<and> gameGrid s' = gameGrid s \<and> block s' = block s)"
proof -
  from assms obtain ug ugg where st: "stampBlock (block s) (grid s) (gameGrid s) = Inr (ug, ugg)"
    by (auto simp: tick_def split: sum.splits)
  from stampBlock_sets[OF st]
  have cells: "list_all (\<lambda>p. readCell ug p = Some 1 \<and> readCell ugg p = Some FILLED) (block s)"
    by (simp add: list_all_iff)
  let ?over = "willCollide (newBlock k1) ug
                 \<or> (\<exists>top_row. js_at ug 0 = Some top_row \<and> list_ex (\<lambda>cell. cell = 1) top_row)"
  have yes: "s' = s\<lparr>gameEnd := True\<rparr>" if "?over"
    using that assms st
    by (auto simp: tick_def Let_def split: sum.splits option.splits if_splits)
  have no: "\<not> gameEnd s'" if "\<not> ?over"
    using that assms st
    by (auto simp: tick_def Let_def split: sum.splits option.splits if_splits)
  from yes no have "gameEnd s' \<longleftrightarrow> ?over" by auto
  moreover from yes no have "gameEnd s' \<Longrightarrow> s' = s\<lparr>gameEnd := True\<rparr>" by blast
  then have "gameEnd s' \<longrightarrow> s' = s\<lparr>gameEnd := True\<rparr>
                \<and> grid s' = grid s \<and> gameGrid s' = gameGrid s \<and> block s' = block s"
    by (cases "gameEnd s'") simp_all
  ultimately show ?thesis using st cells by blast
qed

text \<open>
  Three settled states: on \<open>stack_state\<close> the new piece collides; on \<open>corner_state\<close> it
  does not, and the top row alone ends the game; on \<open>two_rows_state\<close> neither condition
  holds and the game goes on.
\<close>

theorem settled_tick_game_over_witness:
  "blockSettled stack_state \<and> \<not> gameEnd stack_state \<and> \<not> gamePaused stack_state
   \<and> tick stack_state Key_I Key_O = Inr (stack_state\<lparr>gameEnd := True\<rparr>)
   \<and> (\<exists>ug ugg. stampBlock (block stack_state) (grid stack_state) (gameGrid stack_state)
                  = Inr (ug, ugg)
         \<and> list_all (\<lambda>p. readCell ug p = Some 1 \<and> readCell ugg p = Some FILLED)
             (block stack_state)
         \<and> willCollide (newBlock Key_I) ug)
   \<and> grid (stack_state\<lparr>gameEnd := True\<rparr>) = grid stack_state
   \<and> blockSettled corner_state \<and> \<not> gameEnd corner_state \<and> \<not> gamePaused corner_state
   \<and> tick corner_state Key_I Key_O = Inr (corner_state\<lparr>gameEnd := True\<rparr>)
   \<and> (\<exists>ug ugg. stampBlock (block corner_state) (grid corner_state) (gameGrid corner_state)
                  = Inr (ug, ugg)
         \<and> \<not> willCollide (newBlock Key_I) ug
         \<and> (\<exists>top_row. js_at ug 0 = Some top_row \<and> list_ex (\<lambda>cell. cell = 1) top_row))
   \<and> blockSettled two_rows_state \<and> \<not> gameEnd two_rows_state \<and> \<not> gamePaused two_rows_state
   \<and> (\<exists>s'. tick two_rows_state Key_I Key_O = Inr s' \<and> \<not> gameEnd s')
   \<and> (\<exists>ug ugg. stampBlock (block two_rows_state) (grid two_rows_state) (gameGrid two_rows_state)
                  = Inr (ug, ugg)
         \<and> \<not> willCollide (newBlock Key_I) ug
         \<and> \<not> (\<exists>top_row. js_at ug 0 = Some top_row \<and> list_ex (\<lambda>cell. cell = 1) top_row))"
proof -
  have a: "blockSettled stack_state" "\<not> gameEnd stack_state" "\<not> gamePaused stack_state"
    by (simp_all add: stack_state_def initialState_def)
  have b: "blockSettled corner_state" "\<not> gameEnd corner_state" "\<not> gamePaused corner_state"
    by (simp_all add: corner_state_def initialState_def)
  have c: "blockSettled two_rows_state" "\<not> gameEnd two_rows_state" "\<not> gamePaused two_rows_state"
    by (simp_all add: two_rows_state_def initialState_def)
  have ta: "tick stack_state Key_I Key_O = Inr (stack_state\<lparr>gameEnd := True\<rparr>)"
    by code_simp
  have tb: "tick corner_state Key_I Key_O = Inr (corner_state\<lparr>gameEnd := True\<rparr>)"
    by code_simp
  have "case tick two_rows_state Key_I Key_O of Inl e \<Rightarrow> False | Inr s' \<Rightarrow> \<not> gameEnd s'"
    by code_simp
  then obtain s' where tc: "tick two_rows_state Key_I Key_O = Inr s'" and nc: "\<not> gameEnd s'"
    by (auto split: sum.splits)
  have fa: "case stampBlock (block stack_state) (grid stack_state) (gameGrid stack_state) of
              Inl e \<Rightarrow> False | Inr (ug, ugg) \<Rightarrow> willCollide (newBlock Key_I) ug"
    by code_simp
  have fb: "case stampBlock (block corner_state) (grid corner_state) (gameGrid corner_state) of
              Inl e \<Rightarrow> False | Inr (ug, ugg) \<Rightarrow> \<not> willCollide (newBlock Key_I) ug"
    by code_simp
  from settled_tick_game_over[OF a ta] fa
  have ra: "\<exists>ug ugg. stampBlock (block stack_state) (grid stack_state) (gameGrid stack_state)
                  = Inr (ug, ugg)
         \<and> list_all (\<lambda>p. readCell ug p = Some 1 \<and> readCell ugg p = Some FILLED)
             (block stack_state)
         \<and> willCollide (newBlock Key_I) ug"
    by auto
  from settled_tick_game_over[OF b tb] fb
  have rb: "\<exists>ug ugg. stampBlock (block corner_state) (grid corner_state) (gameGrid corner_state)
                  = Inr (ug, ugg)
         \<and> \<not> willCollide (newBlock Key_I) ug
         \<and> (\<exists>top_row. js_at ug 0 = Some top_row \<and> list_ex (\<lambda>cell. cell = 1) top_row)"
    by auto
  from settled_tick_game_over[OF c tc] nc
  have rc: "\<exists>ug ugg. stampBlock (block two_rows_state) (grid two_rows_state) (gameGrid two_rows_state)
                  = Inr (ug, ugg)
         \<and> \<not> willCollide (newBlock Key_I) ug
         \<and> \<not> (\<exists>top_row. js_at ug 0 = Some top_row \<and> list_ex (\<lambda>cell. cell = 1) top_row)"
    by auto
  have g: "grid (stack_state\<lparr>gameEnd := True\<rparr>) = grid stack_state" by simp
  from a b c ta tb tc nc ra rb rc g show ?thesis by blast
qed

text \<open>
  C3 as it is stated fails on \<open>stack_state\<close>: the tick ends the game, the point (4, 0)
  belongs to the settled shape, and in the grids of the resulting state that cell is
  still 0 and EMPTY.
\<close>

theorem settled_tick_game_over_counterexample:
  "blockSettled stack_state \<and> \<not> gameEnd stack_state \<and> \<not> gamePaused stack_state
   \<and> tick stack_state Key_I Key_O = Inr (stack_state\<lparr>gameEnd := True\<rparr>)
   \<and> gameEnd (stack_state\<lparr>gameEnd := True\<rparr>)
   \<and> \<lparr>x = 4, y = 0\<rparr> \<in> set (block stack_state)
   \<and> readCell (grid (stack_state\<lparr>gameEnd := True\<rparr>)) \<lparr>x = 4, y = 0\<rparr> = Some 0
   \<and> readCell (gameGrid (stack_state\<lparr>gameEnd := True\<rparr>)) \<lparr>x = 4, y = 0\<rparr> = Some EMPTY"
  by code_simp

text \<open>
  C10, as the code has it. On a state that is neither terminated, paused nor settled,
  a tick with DOWN pending and a tick with NONE pending both shift by zero columns and
  advance by one row. Where the advanced shape does not collide they return the same
  state. Where it collides both keep the shape and mark it settled, and each result
  keeps the direction of its input, so the two differ in \<open>direction\<close> and nowhere else.
\<close>

theorem tick_down_like_none:
  assumes "\<not> gameEnd s" and "\<not> gamePaused s" and "\<not> blockSettled s"
  shows "tick (s\<lparr>direction := DOWN\<rparr>) k1 k2
           = (if willCollide (map (\<lambda>p. \<lparr>x = x p, y = y p + 1\<rparr>) (block s)) (grid s)
              then Inr (s\<lparr>direction := DOWN, blockSettled := True\<rparr>)
              else Inr (s\<lparr>block := map (\<lambda>p. \<lparr>x = x p, y = y p + 1\<rparr>) (block s),
                         direction := NONE\<rparr>))
       \<and> tick (s\<lparr>direction := NONE\<rparr>) k1 k2
           = (if willCollide (map (\<lambda>p. \<lparr>x = x p, y = y p + 1\<rparr>) (block s)) (grid s)
              then Inr (s\<lparr>direction := NONE, blockSettled := True\<rparr>)
              else Inr (s\<lparr>block := map (\<lambda>p. \<lparr>x = x p, y = y p + 1\<rparr>) (block s),
                         direction := NONE\<rparr>))"
  using assms by (simp add: tick_def Let_def o_def)

theorem tick_down_like_none_witness:
  "\<not> gameEnd (initialState Key_I) \<and> \<not> gamePaused (initialState Key_I)
   \<and> \<not> blockSettled (initialState Key_I)
   \<and> tick ((initialState Key_I)\<lparr>direction := DOWN\<rparr>) Key_O Key_T
       = Inr ((initialState Key_I)\<lparr>block := createSquareBlock 4 1\<rparr>)
   \<and> tick ((initialState Key_I)\<lparr>direction := NONE\<rparr>) Key_O Key_T
       = Inr ((initialState Key_I)\<lparr>block := createSquareBlock 4 1\<rparr>)"
proof -
  have a: "\<not> gameEnd (initialState Key_I)" "\<not> gamePaused (initialState Key_I)"
    "\<not> blockSettled (initialState Key_I)"
    by (simp_all add: initialState_def)
  have b: "\<not> willCollide (map (\<lambda>p. \<lparr>x = x p, y = y p + 1\<rparr>) (block (initialState Key_I)))
             (grid (initialState Key_I))"
    by code_simp
  have c: "(initialState Key_I)
             \<lparr>block := map (\<lambda>p. \<lparr>x = x p, y = y p + 1\<rparr>) (block (initialState Key_I)),
              direction := NONE\<rparr>
           = (initialState Key_I)\<lparr>block := createSquareBlock 4 1\<rparr>"
    by code_simp
  from tick_down_like_none[OF a, of Key_O Key_T] a b c show ?thesis by simp
qed

text \<open>
  C10 as it is stated fails on \<open>floor_state\<close>, where the advanced square collides with
  the floor: the result with DOWN pending keeps DOWN, the result with NONE pending
  keeps NONE, and the two states are not equal.
\<close>

theorem tick_down_like_none_counterexample:
  "\<not> gameEnd floor_state \<and> \<not> gamePaused floor_state \<and> \<not> blockSettled floor_state
   \<and> tick (floor_state\<lparr>direction := DOWN\<rparr>) Key_I Key_O
       = Inr (floor_state\<lparr>direction := DOWN, blockSettled := True\<rparr>)
   \<and> tick (floor_state\<lparr>direction := NONE\<rparr>) Key_I Key_O
       = Inr (floor_state\<lparr>direction := NONE, blockSettled := True\<rparr>)
   \<and> tick (floor_state\<lparr>direction := DOWN\<rparr>) Key_I Key_O
       \<noteq> tick (floor_state\<lparr>direction := NONE\<rparr>) Key_I Key_O"
  by code_simp

section \<open>Row clearing\<close>

text \<open>
  C4. For an occupancy grid whose rows all have width \<open>w\<close> and the cell-state grid in
  lockstep with it, as the data model keeps the two grids and as \<open>tick\<close> passes them,
  \<open>clearFullRows\<close> returns the rows that are not full, in their order, below as many
  fresh rows of free cells of width \<open>w\<close> as there are full rows; the count it reports is
  the number of full rows, the same in both grids; and both results have the rows and
  the width of the inputs. The function is a function of the values of its two
  arguments, which stay as they were.
\<close>

theorem clearFullRows_lockstep:
  assumes rect: "list_all (\<lambda>row. length row = w) g" and lock: "inLockstep g gg"
  shows "\<exists>ng ngg. clearFullRows g gg = Inr (ng, ngg, fullRows g)
           \<and> ng = replicate (nat (fullRows g)) (replicate w 0)
                    @ filter (\<lambda>row. \<not> isFullRow row) g
           \<and> ngg = replicate (nat (fullRows g)) (replicate w EMPTY)
                     @ filter (\<lambda>row. \<not> isFullGameRow row) gg
           \<and> fullRows g = int (length (filter isFullGameRow gg))
           \<and> length ng = length g \<and> length ngg = length gg
           \<and> list_all (\<lambda>row. length row = w) ng \<and> list_all (\<lambda>row. length row = w) ngg"
proof -
  let ?k = "nat (fullRows g)"
  let ?ng = "replicate ?k (replicate w 0) @ filter (\<lambda>row. \<not> isFullRow row) g"
  let ?ngg = "replicate ?k (replicate w EMPTY) @ filter (\<lambda>row. \<not> isFullGameRow row) gg"
  from lock have len: "length g = length gg"
    by (auto simp: inLockstep_def dest: list_all2_lengthD)
  from lockstep_widths[OF lock rect] have grect: "list_all (\<lambda>row. length row = w) gg" .
  from lockstep_filter_length[OF lock] have
    fl: "length (filter isFullGameRow gg) = length (filter isFullRow g)"
    and nfl: "length (filter (\<lambda>row. \<not> isFullGameRow row) gg)
                = length (filter (\<lambda>row. \<not> isFullRow row) g)"
    by simp_all
  have parts: "length g = length (filter isFullRow g) + length (filter (\<lambda>row. \<not> isFullRow row) g)"
    using sum_length_filter_compl[of isFullRow g] by simp
  have res: "clearFullRows g gg = Inr (?ng, ?ngg, fullRows g)"
  proof (cases "fullRows g \<le> 0")
    case True
    then show ?thesis by (simp add: clearFullRows_eq)
  next
    case False
    then have "g \<noteq> []" by (auto simp: fullRows_def)
    with len have "gg \<noteq> []" by auto
    from \<open>g \<noteq> []\<close> rect have g0: "js_at g 0 = Some (hd g)" "length (hd g) = w"
      by (cases g; simp add: js_at_def)+
    from \<open>gg \<noteq> []\<close> grect have gg0: "js_at gg 0 = Some (hd gg)" "length (hd gg) = w"
      by (cases gg; simp add: js_at_def)+
    from False g0 gg0 show ?thesis by (simp add: clearFullRows_eq)
  qed
  have l1: "length ?ng = length g" using parts by (simp add: fullRows_def)
  have l2: "length ?ngg = length gg" using parts nfl len by (simp add: fullRows_def)
  have w1: "list_all (\<lambda>row. length row = w) ?ng"
    using rect by (auto simp: list_all_iff)
  have w2: "list_all (\<lambda>row. length row = w) ?ngg"
    using grect by (auto simp: list_all_iff)
  from res fl l1 l2 w1 w2 show ?thesis by (simp add: fullRows_def)
qed

theorem clearFullRows_lockstep_witness:
  "list_all (\<lambda>row. length row = 2) [[0, 1], [1, 1], [1, 0], [1, 1 :: int]]
   \<and> inLockstep [[0, 1], [1, 1], [1, 0], [1, 1]]
        [[EMPTY, FILLED], [FILLED, FILLED], [FILLED, EMPTY], [FILLED, FILLED]]
   \<and> clearFullRows [[0, 1], [1, 1], [1, 0], [1, 1]]
        [[EMPTY, FILLED], [FILLED, FILLED], [FILLED, EMPTY], [FILLED, FILLED]]
       = Inr ([[0, 0], [0, 0], [0, 1], [1, 0]],
              [[EMPTY, EMPTY], [EMPTY, EMPTY], [EMPTY, FILLED], [FILLED, EMPTY]], 2)"
proof -
  have a: "list_all (\<lambda>row. length row = 2) [[0, 1], [1, 1], [1, 0], [1, 1 :: int]]"
    by simp
  have b: "inLockstep [[0, 1], [1, 1], [1, 0], [1, 1]]
        [[EMPTY, FILLED], [FILLED, FILLED], [FILLED, EMPTY], [FILLED, FILLED]]"
    by (simp add: inLockstep_def)
  have c: "fullRows [[0, 1], [1, 1], [1, 0], [1, 1]] = 2"
    by (simp add: fullRows_def isFullRow_def)
  from clearFullRows_lockstep[OF a b] a b c show ?thesis
    by (auto simp: isFullRow_def isFullGameRow_def numeral_2_eq_2)
qed

text \<open>
  The lockstep matters: for an occupancy row that is full beside a cell-state row that
  is not, the cell-state grid comes back one row longer.
\<close>

lemma clearFullRows_out_of_lockstep:
  "\<not> inLockstep [[1]] [[EMPTY]]
   \<and> clearFullRows [[1]] [[EMPTY]] = Inr ([[0]], [[EMPTY], [EMPTY]], 1)"
  by (simp add: inLockstep_def) code_simp

section \<open>The reducer\<close>

text \<open>
  C8. In every state that an event sequence reaches from the initial state,
  \<open>currentBlockType\<close> is 'I'; so \<open>rotateBlock\<close> never takes the branch of type 'O', and
  whatever piece is falling, the square too, is rotated about its centre.
\<close>

theorem currentBlockType_stays_I:
  assumes "game_scan k0 (game_start k0) events = Inr (s, r)"
  shows "currentBlockType s = ''I''
         \<and> rotateBlock (block s) (currentBlockType s)
             = map (\<lambda>p. rotatePoint p (getBlockCenter (block s))) (block s)"
proof -
  from game_scan_keeps[OF assms game_start_fields] have "currentBlockType s = ''I''" by simp
  then show ?thesis by (simp add: rotateBlock_def)
qed

theorem currentBlockType_stays_I_witness:
  "\<exists>s r. game_scan Key_O (game_start Key_O) square_events = Inr (s, r)
     \<and> block s = [\<lparr>x = 4, y = 2\<rparr>, \<lparr>x = 4, y = 1\<rparr>, \<lparr>x = 5, y = 2\<rparr>, \<lparr>x = 5, y = 1\<rparr>]
     \<and> currentBlockType s = ''I''
     \<and> rotateBlock (block s) (currentBlockType s)
         = map (\<lambda>p. rotatePoint p (getBlockCenter (block s))) (block s)"
proof -
  have "case game_scan Key_O (game_start Key_O) square_events of
          Inl e \<Rightarrow> False
        | Inr (s, r) \<Rightarrow>
            block s = [\<lparr>x = 4, y = 2\<rparr>, \<lparr>x = 4, y = 1\<rparr>, \<lparr>x = 5, y = 2\<rparr>, \<lparr>x = 5, y = 1\<rparr>]"
    by code_simp
  then obtain s r where run: "game_scan Key_O (game_start Key_O) square_events = Inr (s, r)"
    and b: "block s = [\<lparr>x = 4, y = 2\<rparr>, \<lparr>x = 4, y = 1\<rparr>, \<lparr>x = 5, y = 2\<rparr>, \<lparr>x = 5, y = 1\<rparr>]"
    by (auto split: sum.splits)
  from currentBlockType_stays_I[OF run] run b show ?thesis by blast
qed

text \<open>
  C9. In every state that an event sequence reaches from the initial state,
  \<open>highscore\<close> is 0: no event writes the score into it, and RESTART hands on the value
  it finds.
\<close>

theorem highscore_stays_0:
  assumes "game_scan k0 (game_start k0) events = Inr (s, r)"
  shows "highscore s = 0"
  using game_scan_keeps[OF assms game_start_fields] by simp

theorem highscore_stays_0_witness:
  "\<exists>s r. game_scan Key_O (game_start Key_O) (two_rows_events @ [TICK Key_O Key_O]) = Inr (s, r)
     \<and> score s = 20 \<and> highscore s = 0"
proof -
  have "case game_scan Key_O (game_start Key_O) (two_rows_events @ [TICK Key_O Key_O]) of
          Inl e \<Rightarrow> False
        | Inr (s, r) \<Rightarrow> score s = 20"
    by code_simp
  then obtain s r where
    run: "game_scan Key_O (game_start Key_O) (two_rows_events @ [TICK Key_O Key_O]) = Inr (s, r)"
    and sc: "score s = 20"
    by (auto split: sum.splits)
  from highscore_stays_0[OF run] run sc show ?thesis by blast
qed

text \<open>
  C1, on the code. After \<open>left_wall_events\<close> the I piece stands in column 0, and the game
  is neither over nor paused. Its rotation reaches column -1 and is rejected. The event
  ROTATE then returns the state with \<open>gamePaused\<close> set: the state is not left as it was.
\<close>

theorem rotate_rejected_pauses:
  "(case game_scan Key_I (game_start Key_I) left_wall_events of
      Inl e \<Rightarrow> False
    | Inr (s, r) \<Rightarrow>
        \<not> gameEnd s \<and> \<not> gamePaused s
        \<and> block s = [\<lparr>x = 0, y = 4\<rparr>, \<lparr>x = 0, y = 5\<rparr>, \<lparr>x = 0, y = 6\<rparr>, \<lparr>x = 0, y = 7\<rparr>]
        \<and> rotateBlock (block s) (currentBlockType s)
            = [\<lparr>x = - 1, y = 6\<rparr>, \<lparr>x = 0, y = 6\<rparr>, \<lparr>x = 1, y = 6\<rparr>, \<lparr>x = 2, y = 6\<rparr>]
        \<and> isOutOfBound (rotateBlock (block s) (currentBlockType s))
        \<and> game_reduce Key_I (s, r) ROTATE = Inr (s\<lparr>gamePaused := True\<rparr>, r)
        \<and> game_reduce Key_I (s, r) ROTATE \<noteq> Inr (s, r))"
  by code_simp

text \<open>
  C2, on the code. \<open>two_rows_events\<close> leads to \<open>two_rows_state\<close>. The tick that follows
  clears two rows and adds 20 to the score, but \<open>clearedRows\<close> is 0 before and after it,
  and \<open>tickRate$\<close> keeps the base rate, not the tenth of it that \<open>getTickRate\<close> gives
  for a count of 2.
\<close>

theorem cleared_rows_not_counted:
  "game_scan Key_O (game_start Key_O) two_rows_events = Inr (two_rows_state, TICK_RATE_MS)
   \<and> clearedRows two_rows_state = 0
   \<and> (case game_reduce Key_O (two_rows_state, TICK_RATE_MS) (TICK Key_O Key_O) of
        Inl e \<Rightarrow> False
      | Inr (s', r') \<Rightarrow>
          score s' = score two_rows_state + 20
          \<and> clearedRows s' = 0
          \<and> r' = TICK_RATE_MS
          \<and> r' \<noteq> getTickRate (clearedRows two_rows_state + 2))"
  by code_simp

end
